theory Spec2Isabelle
  imports Main
begin

section \<open>The search popover of gnome-terminal\<close>

text \<open>
  A shallow embedding of \<^verbatim>\<open>src/terminal-search-popover.c\<close>: the search history (a
  process-wide \<^verbatim>\<open>GtkListStore\<close> of strings), the search dispatcher
  \<^verbatim>\<open>perform_search\<close> and the pattern compiler \<^verbatim>\<open>update_regex\<close>.

  C strings are byte strings: \<^typ>\<open>string\<close>, one \<^typ>\<open>char\<close> per byte, the terminating
  NUL left out. A pointer that may be \<^verbatim>\<open>NULL\<close> is an \<^typ>\<open>'a option\<close>.
\<close>

subsection \<open>GLib string functions used by the file\<close>

text \<open>The backslash, byte \<open>0x5C\<close>.\<close>

definition bslash :: char where
  "bslash = CHR 0x5C"

text \<open>
  GLib's table \<^verbatim>\<open>g_utf8_skip\<close>: the length of a UTF-8 sequence, read off its first
  byte. \<^verbatim>\<open>g_utf8_next_char (p)\<close> is \<^verbatim>\<open>p + g_utf8_skip[*p]\<close>.
\<close>

definition utf8_skip :: "char \<Rightarrow> nat" where
  "utf8_skip c =
     (let n = (of_char c :: nat) in
      if n < 0xC0 then 1
      else if n < 0xE0 then 2
      else if n < 0xF0 then 3
      else if n < 0xF8 then 4
      else if n < 0xFC then 5
      else if n < 0xFE then 6
      else 1)"

text \<open>
  \<^verbatim>\<open>g_utf8_strlen (text, -1)\<close>: \<^verbatim>\<open>while (*p) { p = g_utf8_next_char (p); ++len; }\<close>.
  On valid UTF-8 this is the number of code points. (On a sequence cut short by the end
  of the string the C code reads past the terminator; the model stops at the end. The
  text of a \<^verbatim>\<open>GtkEntry\<close> is valid UTF-8.)
\<close>

function g_utf8_strlen :: "string \<Rightarrow> nat" where
  "g_utf8_strlen [] = 0"
| "g_utf8_strlen (c # cs) = Suc (g_utf8_strlen (drop (utf8_skip c - 1) cs))"
  by pat_completeness auto
termination
  by (relation "measure length") auto

text \<open>
  \<^verbatim>\<open>g_regex_escape_string (text, -1)\<close> puts a backslash before each of the bytes
  \<^verbatim>\<open>\ | ( ) [ ] { } ^ $ * + ? .\<close> and copies every other byte. (Its case for an embedded
  NUL cannot arise with length \<open>-1\<close>.)
\<close>

definition regex_special :: "char \<Rightarrow> bool" where
  "regex_special c =
     (c = bslash \<or> c = CHR ''|'' \<or> c = CHR ''('' \<or> c = CHR '')'' \<or> c = CHR ''['' \<or>
      c = CHR '']'' \<or> c = CHR ''{'' \<or> c = CHR ''}'' \<or> c = CHR ''^'' \<or> c = CHR ''$'' \<or>
      c = CHR ''*'' \<or> c = CHR ''+'' \<or> c = CHR ''?'' \<or> c = CHR ''.'')"

fun g_regex_escape_string :: "string \<Rightarrow> string" where
  "g_regex_escape_string [] = []"
| "g_regex_escape_string (c # cs) =
     (if regex_special c then bslash # c # g_regex_escape_string cs
      else c # g_regex_escape_string cs)"

subsection \<open>The search history\<close>

text \<open>
  \<^verbatim>\<open>static GtkListStore *history_store\<close> has one string column; row \<open>0\<close> is the head of
  the list. Rows are only ever created by \<^verbatim>\<open>history_insert_item\<close>, with a non-NULL
  string, so a row is a \<^typ>\<open>string\<close> (the test \<^verbatim>\<open>item_text != NULL\<close> of
  \<^verbatim>\<open>history_remove_item\<close> is always true). The pointer itself is \<^verbatim>\<open>NULL\<close> until
  \<^verbatim>\<open>history_enabled\<close> first finds the setting on.
\<close>

type_synonym list_store = "string list"

definition HISTORY_MIN_ITEM_LEN :: nat where
  "HISTORY_MIN_ITEM_LEN = 3"

definition HISTORY_LENGTH :: int where
  "HISTORY_LENGTH = 10"

text \<open>
  \<^verbatim>\<open>history_enabled\<close> reads the setting \<^verbatim>\<open>gtk-recent-files-enabled\<close> (the first
  argument) and creates the store on first use. It returns its result and the new value
  of \<^verbatim>\<open>history_store\<close>.
\<close>

definition history_enabled :: "bool \<Rightarrow> list_store option \<Rightarrow> bool \<times> list_store option" where
  "history_enabled enabled hs =
     (if \<not> enabled then (False, hs)
      else (True, Some (case hs of None \<Rightarrow> [] | Some store \<Rightarrow> store)))"

text \<open>
  \<^verbatim>\<open>history_remove_item\<close> walks the rows from the first and removes the first row equal
  to \<open>text\<close>; it returns whether it removed one.
\<close>

fun history_remove_item :: "string \<Rightarrow> list_store \<Rightarrow> bool \<times> list_store" where
  "history_remove_item text [] = (False, [])"
| "history_remove_item text (item_text # rest) =
     (if item_text = text then (True, rest)
      else (case history_remove_item text rest of
              (removed, rest') \<Rightarrow> (removed, item_text # rest')))"

text \<open>
  \<^verbatim>\<open>gtk_list_store_remove (store, &iter)\<close> removes the row at the iterator, moves the
  iterator to the row that followed, and returns whether there is such a row. The loop
  \<^verbatim>\<open>while (1) if (!gtk_list_store_remove (history_store, &iter)) break;\<close> at row \<open>i\<close>:
\<close>

function history_clamp_loop :: "nat \<Rightarrow> list_store \<Rightarrow> list_store" where
  "history_clamp_loop i store =
     (let store' = take i store @ drop (Suc i) store in
      if i < length store' then history_clamp_loop i store' else store')"
  by pat_completeness auto
termination
  by (relation "measure (\<lambda>(i, store). length store)") auto

declare history_clamp_loop.simps [simp del]

text \<open>
  \<^verbatim>\<open>history_clamp (max)\<close> (the argument is \<open>max_rows\<close> here) builds the path of row
  \<open>max - 1\<close> and, when the store has that row, runs the loop from it. (A negative index
  ends the argument list of \<^verbatim>\<open>gtk_tree_path_new_from_indices\<close>: the path is empty and
  names no row.)
\<close>

definition history_clamp :: "int \<Rightarrow> list_store \<Rightarrow> list_store" where
  "history_clamp max_rows store =
     (if 0 \<le> max_rows - 1 \<and> nat (max_rows - 1) < length store
      then history_clamp_loop (nat (max_rows - 1)) store
      else store)"

text \<open>
  \<^verbatim>\<open>history_insert_item (text)\<close>. Arguments: the setting, the text (possibly
  \<^verbatim>\<open>NULL\<close>), and \<^verbatim>\<open>history_store\<close>; the result is the new \<^verbatim>\<open>history_store\<close>.
  After \<^verbatim>\<open>history_enabled\<close> has returned \<^verbatim>\<open>TRUE\<close> the store exists.
\<close>

definition history_insert_item :: "bool \<Rightarrow> string option \<Rightarrow> list_store option \<Rightarrow> list_store option" where
  "history_insert_item enabled text hs =
     (case history_enabled enabled hs of
        (False, hs1) \<Rightarrow> hs1
      | (True, hs1) \<Rightarrow>
          (case text of
             None \<Rightarrow> hs1
           | Some t \<Rightarrow>
               if g_utf8_strlen t \<le> HISTORY_MIN_ITEM_LEN then hs1
               else (case hs1 of
                       None \<Rightarrow> hs1
                     | Some store \<Rightarrow>
                         (case history_remove_item t store of
                            (removed, store1) \<Rightarrow>
                              Some (t # (if \<not> removed
                                         then history_clamp (HISTORY_LENGTH - 1) store1
                                         else store1))))))"

text \<open>The rows a reader of the store finds; none while the store does not exist.\<close>

definition history_entries :: "list_store option \<Rightarrow> string list" where
  "history_entries hs = (case hs of None \<Rightarrow> [] | Some store \<Rightarrow> store)"

text \<open>A run of insertions, first to last, under one value of the setting.\<close>

fun history_insert_all :: "bool \<Rightarrow> string list \<Rightarrow> list_store option \<Rightarrow> list_store option" where
  "history_insert_all enabled [] hs = hs"
| "history_insert_all enabled (t # ts) hs =
     history_insert_all enabled ts (history_insert_item enabled (Some t) hs)"

subsection \<open>The popover\<close>

text \<open>
  The regex engine (\<^verbatim>\<open>vte_regex_new\<close> with PCRE2, \<^verbatim>\<open>g_regex_new\<close> without) is outside
  the file. It is a parameter: given the pattern and the flags caseless and multiline it
  answers \<open>None\<close> when the pattern compiles and \<open>Some error\<close> when it does not. A compiled
  regex is an opaque handle; the model keeps what it was compiled from. (The constant
  flags \<^verbatim>\<open>PCRE2_UTF | PCRE2_NO_UTF_CHECK\<close>, respectively \<^verbatim>\<open>G_REGEX_OPTIMIZE\<close>, and the JIT
  calls, whose results are ignored, are left out.)
\<close>

record vte_regex =
  rx_pattern :: string
  rx_caseless :: bool
  rx_multiline :: bool

type_synonym gerror = string

type_synonym engine = "string \<Rightarrow> bool \<Rightarrow> bool \<Rightarrow> gerror option"

definition regex_new :: "engine \<Rightarrow> string \<Rightarrow> bool \<Rightarrow> bool \<Rightarrow> gerror + vte_regex" where
  "regex_new eng pattern caseless multiline =
     (case eng pattern caseless multiline of
        Some err \<Rightarrow> Inl err
      | None \<Rightarrow> Inr \<lparr>rx_pattern = pattern, rx_caseless = caseless, rx_multiline = multiline\<rparr>)"

text \<open>
  What the popover does to the world outside, in program order: releasing a regex,
  asking the engine to compile, notifying the property \<^verbatim>\<open>regex\<close> (with the value
  \<^verbatim>\<open>terminal_search_popover_get_regex\<close> returns to a handler at that moment), notifying
  \<^verbatim>\<open>wrap-around\<close>, and emitting the signal \<^verbatim>\<open>search\<close> (with its argument
  \<^verbatim>\<open>backward\<close>, and the history store as it is at that moment).
\<close>

datatype event =
    Regex_unref vte_regex
  | Regex_new string bool bool
  | Notify_regex "vte_regex option"
  | Notify_wrap_around bool
  | Search_signal bool "list_store option"

text \<open>
  The state: of the widgets of the template, the text of \<^verbatim>\<open>search_entry\<close>, whether each
  check button is active and whether each of the two search buttons is sensitive; the
  fields of \<^verbatim>\<open>TerminalSearchPopoverPrivate\<close>; the two globals the file reads (the store
  and the setting); and the events so far.
\<close>

record popover =
  search_entry :: string
  match_case_checkbutton :: bool
  entire_word_checkbutton :: bool
  regex_checkbutton :: bool
  wrap_around_checkbutton :: bool
  search_prev_button :: bool
  search_next_button :: bool
  search_text_changed :: bool
  regex_caseless :: bool
  regex_multiline :: bool
  regex_pattern :: "string option"
  regex :: "vte_regex option"
  history_store :: "list_store option"
  gtk_recent_files_enabled :: bool
  trace :: "event list"

definition update_sensitivity :: "popover \<Rightarrow> popover" where
  "update_sensitivity w =
     (let can_search = (regex w \<noteq> None) in
      w\<lparr>search_prev_button := can_search, search_next_button := can_search\<rparr>)"

definition perform_search :: "bool \<Rightarrow> popover \<Rightarrow> popover" where
  "perform_search backward w =
     (if regex w = None then w
      else
        let w1 = (if search_text_changed w
                  then w\<lparr>history_store :=
                            history_insert_item (gtk_recent_files_enabled w)
                              (Some (search_entry w)) (history_store w),
                         search_text_changed := False\<rparr>
                  else w)
        in w1\<lparr>trace := trace w1 @ [Search_signal backward (history_store w1)]\<rparr>)"

definition previous_match_cb :: "popover \<Rightarrow> popover" where
  "previous_match_cb w = perform_search True w"

definition next_match_cb :: "popover \<Rightarrow> popover" where
  "next_match_cb w = perform_search False w"

text \<open>
  \<^verbatim>\<open>search_button_clicked_cb\<close>: the first argument says whether the button clicked is
  \<^verbatim>\<open>search_prev_button\<close>.
\<close>

definition search_button_clicked_cb :: "bool \<Rightarrow> popover \<Rightarrow> popover" where
  "search_button_clicked_cb is_prev_button w = perform_search is_prev_button w"

text \<open>
  The first part of \<^verbatim>\<open>update_regex\<close>: the pattern and the flags \<open>caseless\<close> and
  \<open>multiline\<close>, from the entry and the check buttons.
\<close>

definition search_pattern :: "popover \<Rightarrow> string \<times> bool \<times> bool" where
  "search_pattern w =
     (let search_text = search_entry w;
          caseless = \<not> match_case_checkbutton w;
          (pattern, multiline) =
            (if regex_checkbutton w then (search_text, True)
             else (g_regex_escape_string search_text, False));
          pattern = (if entire_word_checkbutton w
                     then [bslash, CHR ''b''] @ pattern @ [bslash, CHR ''b'']
                     else pattern)
      in (pattern, caseless, multiline))"

text \<open>
  The test before the early return. \<^verbatim>\<open>g_strcmp0\<close> is \<open>0\<close> when both strings are
  \<^verbatim>\<open>NULL\<close> or both are equal strings; \<open>pattern\<close> is never \<^verbatim>\<open>NULL\<close>.
\<close>

definition regex_unchanged :: "popover \<Rightarrow> bool" where
  "regex_unchanged w =
     (case search_pattern w of
        (pattern, caseless, multiline) \<Rightarrow>
          regex_caseless w = caseless \<and> regex_multiline w = multiline \<and>
          regex_pattern w = Some pattern)"

definition update_regex :: "engine \<Rightarrow> popover \<Rightarrow> popover" where
  "update_regex eng w =
     (case search_pattern w of
        (pattern, caseless, multiline) \<Rightarrow>
          if regex_unchanged w then w
          else
            let w1 = (case regex w of
                        Some r \<Rightarrow> w\<lparr>trace := trace w @ [Regex_unref r]\<rparr>
                      | None \<Rightarrow> w);
                w2 = w1\<lparr>regex_pattern := None\<rparr>;
                w3 = (if search_entry w \<noteq> []
                      then
                        (let w' = w2\<lparr>trace := trace w2 @ [Regex_new pattern caseless multiline]\<rparr> in
                         case regex_new eng pattern caseless multiline of
                           Inr r \<Rightarrow> w'\<lparr>regex := Some r, regex_pattern := Some pattern\<rparr>
                         | Inl err \<Rightarrow> w'\<lparr>regex := None\<rparr>)
                      else w2\<lparr>regex := None\<rparr>);
                w4 = update_sensitivity w3
            in w4\<lparr>trace := trace w4 @ [Notify_regex (regex w4)]\<rparr>)"

definition search_text_changed_cb :: "engine \<Rightarrow> popover \<Rightarrow> popover" where
  "search_text_changed_cb eng w = (update_regex eng w)\<lparr>search_text_changed := True\<rparr>"

definition search_parameters_changed_cb :: "engine \<Rightarrow> popover \<Rightarrow> popover" where
  "search_parameters_changed_cb eng w = update_regex eng w"

definition terminal_search_popover_get_wrap_around :: "popover \<Rightarrow> bool" where
  "terminal_search_popover_get_wrap_around w = wrap_around_checkbutton w"

definition wrap_around_toggled_cb :: "popover \<Rightarrow> popover" where
  "wrap_around_toggled_cb w =
     w\<lparr>trace := trace w @ [Notify_wrap_around (terminal_search_popover_get_wrap_around w)]\<rparr>"

definition terminal_search_popover_get_regex :: "popover \<Rightarrow> vte_regex option" where
  "terminal_search_popover_get_regex w = regex w"

text \<open>
  \<^verbatim>\<open>terminal_search_popover_init\<close>. The instance is zero-filled, the template sets the
  widgets (the entry's text and the four check buttons are arguments, as the template is
  not part of the file), \<^verbatim>\<open>history_enabled\<close> is asked once, and
  \<^verbatim>\<open>update_sensitivity\<close> is run. The last two arguments are the two globals.
\<close>

definition terminal_search_popover_init ::
    "string \<Rightarrow> bool \<Rightarrow> bool \<Rightarrow> bool \<Rightarrow> bool \<Rightarrow> bool \<Rightarrow> list_store option \<Rightarrow> popover" where
  "terminal_search_popover_init text match_case entire_word use_regex wrap_around enabled hs =
     update_sensitivity
       \<lparr>search_entry = text,
        match_case_checkbutton = match_case,
        entire_word_checkbutton = entire_word,
        regex_checkbutton = use_regex,
        wrap_around_checkbutton = wrap_around,
        search_prev_button = True,
        search_next_button = True,
        search_text_changed = False,
        regex_caseless = False,
        regex_multiline = False,
        regex_pattern = None,
        regex = None,
        history_store = snd (history_enabled enabled hs),
        gtk_recent_files_enabled = enabled,
        trace = []\<rparr>"

text \<open>
  The signals connected by \<^verbatim>\<open>terminal_search_popover_init\<close>, as events of the user
  interface. The entry is a \<^verbatim>\<open>GtkSearchEntry\<close>: an edit changes its text at once and
  \<^verbatim>\<open>search-changed\<close> follows after a delay, so the two are separate events. A check
  button emits \<^verbatim>\<open>toggled\<close> when its state flips; an insensitive button cannot be
  clicked. The setting can change at any time.
\<close>

datatype checkbutton = Match_case | Entire_word | Regex

datatype ui_event =
    Entry_edit string
  | Search_changed
  | Toggled checkbutton
  | Wrap_around_toggled
  | Prev_clicked
  | Next_clicked
  | Previous_match
  | Next_match
  | Setting_changed bool

fun flip :: "checkbutton \<Rightarrow> popover \<Rightarrow> popover" where
  "flip Match_case w = w\<lparr>match_case_checkbutton := \<not> match_case_checkbutton w\<rparr>"
| "flip Entire_word w = w\<lparr>entire_word_checkbutton := \<not> entire_word_checkbutton w\<rparr>"
| "flip Regex w = w\<lparr>regex_checkbutton := \<not> regex_checkbutton w\<rparr>"

fun dispatch :: "engine \<Rightarrow> ui_event \<Rightarrow> popover \<Rightarrow> popover" where
  "dispatch eng (Entry_edit text) w = w\<lparr>search_entry := text\<rparr>"
| "dispatch eng Search_changed w = search_text_changed_cb eng w"
| "dispatch eng (Toggled b) w = search_parameters_changed_cb eng (flip b w)"
| "dispatch eng Wrap_around_toggled w =
     wrap_around_toggled_cb (w\<lparr>wrap_around_checkbutton := \<not> wrap_around_checkbutton w\<rparr>)"
| "dispatch eng Prev_clicked w =
     (if search_prev_button w then search_button_clicked_cb True w else w)"
| "dispatch eng Next_clicked w =
     (if search_next_button w then search_button_clicked_cb False w else w)"
| "dispatch eng Previous_match w = previous_match_cb w"
| "dispatch eng Next_match w = next_match_cb w"
| "dispatch eng (Setting_changed b) w = w\<lparr>gtk_recent_files_enabled := b\<rparr>"

fun run :: "engine \<Rightarrow> ui_event list \<Rightarrow> popover \<Rightarrow> popover" where
  "run eng [] w = w"
| "run eng (e # es) w = run eng es (dispatch eng e w)"

text \<open>Counting in a trace: calls of the engine, and notifications of \<^verbatim>\<open>regex\<close>.\<close>

fun is_compile :: "event \<Rightarrow> bool" where
  "is_compile (Regex_new p c m) = True"
| "is_compile _ = False"

fun is_notify :: "event \<Rightarrow> bool" where
  "is_notify (Notify_regex r) = True"
| "is_notify _ = False"

definition compilations :: "popover \<Rightarrow> nat" where
  "compilations w = length (filter is_compile (trace w))"

definition notifications :: "popover \<Rightarrow> nat" where
  "notifications w = length (filter is_notify (trace w))"

text \<open>
  An engine for the examples: it refuses a pattern that has an opening parenthesis and no
  closing one, and compiles every other pattern.
\<close>

definition example_engine :: engine where
  "example_engine pattern caseless multiline =
     (if CHR ''('' \<in> set pattern \<and> CHR '')'' \<notin> set pattern
      then Some ''missing closing parenthesis'' else None)"

subsection \<open>Notions used to state the properties\<close>

text \<open>
  Following the spec's words "escape all regex metacharacters literally": a pattern made
  of ordinary bytes and of metacharacters each behind a backslash, and nothing else,
  stands for a literal string; \<open>spec_literal\<close> reads that string back, and is \<open>None\<close> on
  a pattern with a bare metacharacter or a backslash before an ordinary byte.
\<close>

fun spec_literal :: "string \<Rightarrow> string option" where
  "spec_literal [] = Some []"
| "spec_literal [c] = (if regex_special c then None else Some [c])"
| "spec_literal (c # d # cs) =
     (if c = bslash then (if regex_special d then map_option ((#) d) (spec_literal cs) else None)
      else if regex_special c then None
      else map_option ((#) c) (spec_literal (d # cs)))"

text \<open>
  The invariant of the cache between two events: the flags \<^verbatim>\<open>regex_caseless\<close> and
  \<^verbatim>\<open>regex_multiline\<close> are as \<^verbatim>\<open>terminal_search_popover_init\<close> left them, a regex is
  held exactly when a pattern is cached, and a cached pattern was made from a non-empty
  text under the present state of the check buttons. \<open>cache_pre b\<close> is the same just
  after check button \<open>b\<close> has flipped and before its handler has run.
\<close>

definition cache_inv :: "popover \<Rightarrow> bool" where
  "cache_inv w \<longleftrightarrow>
     \<not> regex_caseless w \<and> \<not> regex_multiline w \<and>
     (regex w = None \<longleftrightarrow> regex_pattern w = None) \<and>
     (\<forall>p. regex_pattern w = Some p \<longrightarrow>
        (\<exists>t. t \<noteq> [] \<and> p = fst (search_pattern (w\<lparr>search_entry := t\<rparr>))))"

definition cache_pre :: "checkbutton \<Rightarrow> popover \<Rightarrow> bool" where
  "cache_pre b w \<longleftrightarrow>
     \<not> regex_caseless w \<and> \<not> regex_multiline w \<and>
     (regex w = None \<longleftrightarrow> regex_pattern w = None) \<and>
     (\<forall>p. regex_pattern w = Some p \<longrightarrow>
        (\<exists>t. t \<noteq> [] \<and> p = fst (search_pattern (flip b (w\<lparr>search_entry := t\<rparr>)))))"

section \<open>Properties of the history\<close>

subsection \<open>The loops, in closed form\<close>

lemma history_remove_item_eq:
  "history_remove_item t store = (t \<in> set store, remove1 t store)"
  by (induction store) auto

lemma history_clamp_loop_take:
  "i < length store \<Longrightarrow> history_clamp_loop i store = take i store"
proof (induction i store rule: history_clamp_loop.induct)
  case (1 i store)
  let ?store' = "take i store @ drop (Suc i) store"
  show ?case
  proof (cases "i < length ?store'")
    case True
    with 1 have "history_clamp_loop i ?store' = take i ?store'"
      by simp
    with True "1.prems" show ?thesis
      by (subst history_clamp_loop.simps) (simp add: Let_def)
  next
    case False
    with "1.prems" show ?thesis
      by (subst history_clamp_loop.simps) (auto simp add: Let_def)
  qed
qed

text \<open>
  \<^verbatim>\<open>history_clamp (max)\<close> leaves the first \<open>max - 1\<close> rows, not the first \<open>max\<close>: the
  row at index \<open>max - 1\<close> is the first one removed.
\<close>

lemma history_clamp_take:
  "history_clamp m store = (if 1 \<le> m then take (nat (m - 1)) store else store)"
  by (simp add: history_clamp_def history_clamp_loop_take)

lemma history_insert_item_Some:
  "history_insert_item enabled (Some t) hs =
     (if enabled
      then Some (if 3 < g_utf8_strlen t
                 then t # (if t \<in> set (history_entries hs) then remove1 t (history_entries hs)
                           else take 8 (history_entries hs))
                 else history_entries hs)
      else hs)"
  by (simp add: history_insert_item_def history_enabled_def history_entries_def
      HISTORY_MIN_ITEM_LEN_def HISTORY_LENGTH_def history_remove_item_eq history_clamp_take
      remove1_idem split: option.splits)

lemma history_insert_item_entries:
  "history_entries (history_insert_item enabled (Some t) hs) =
     (if enabled \<and> 3 < g_utf8_strlen t
      then t # (if t \<in> set (history_entries hs) then remove1 t (history_entries hs)
                else take 8 (history_entries hs))
      else history_entries hs)"
  by (simp add: history_insert_item_Some) (simp add: history_entries_def)

lemma history_insert_item_NULL:
  "history_entries (history_insert_item enabled None hs) = history_entries hs"
  by (simp add: history_insert_item_def history_enabled_def history_entries_def
      split: option.splits)

lemma history_insert_item_distinct:
  "distinct (history_entries hs) \<Longrightarrow>
   distinct (history_entries (history_insert_item enabled t hs))"
  by (cases t)
    (auto simp add: history_insert_item_entries history_insert_item_NULL dest: in_set_takeD)

lemma history_insert_item_length:
  "length (history_entries hs) \<le> 9 \<Longrightarrow>
   length (history_entries (history_insert_item enabled t hs)) \<le> 9"
proof (cases t)
  case None
  assume "length (history_entries hs) \<le> 9"
  with None show ?thesis by (simp add: history_insert_item_NULL)
next
  case (Some s)
  assume "length (history_entries hs) \<le> 9"
  with Some show ?thesis
    by (auto simp add: history_insert_item_entries length_remove1)
qed

lemma history_insert_all_distinct:
  "distinct (history_entries hs) \<Longrightarrow>
   distinct (history_entries (history_insert_all enabled ts hs))"
  by (induction ts arbitrary: hs) (simp_all add: history_insert_item_distinct)

lemma history_insert_all_length:
  "length (history_entries hs) \<le> 9 \<Longrightarrow>
   length (history_entries (history_insert_all enabled ts hs)) \<le> 9"
  by (induction ts arbitrary: hs) (simp_all add: history_insert_item_length)

subsection \<open>Counting code points\<close>

lemma g_utf8_strlen_le_length: "g_utf8_strlen s \<le> length s"
proof (induction s rule: g_utf8_strlen.induct)
  case 1
  show ?case by simp
next
  case (2 c cs)
  have "length (drop (utf8_skip c - 1) cs) \<le> length cs" by simp
  with 2 show ?case by simp
qed

lemma g_utf8_strlen_ascii:
  "\<forall>c \<in> set s. (of_char c :: nat) < 0xC0 \<Longrightarrow> g_utf8_strlen s = length s"
  by (induction s) (simp_all add: utf8_skip_def)

subsection \<open>The claims about the history\<close>

text \<open>
  C7. \<^verbatim>\<open>history_insert_item\<close> rejects a string of at most 3 code points: the rows of the
  store are as they were. With the history enabled, it accepts a string of 4 code points
  or more: the string is the first row afterwards. (When the setting is off,
  \<^verbatim>\<open>history_insert_item\<close> returns at once for every string; that is the gate of the
  whole history, not the threshold.)
\<close>

theorem history_insert_item_threshold:
  "(g_utf8_strlen t \<le> 3 \<longrightarrow>
      history_entries (history_insert_item enabled (Some t) hs) = history_entries hs) \<and>
   (enabled \<and> 4 \<le> g_utf8_strlen t \<longrightarrow>
      (\<exists>rest. history_entries (history_insert_item enabled (Some t) hs) = t # rest))"
  by (simp add: history_insert_item_entries)

text \<open>
  The strings of the claim, and one of three code points in six bytes (a-umlaut,
  o-umlaut, u-umlaut), inserted into a store that holds \<open>hello\<close>.
\<close>

theorem history_insert_item_threshold_witness:
  "history_entries (history_insert_item True (Some ''ab'') (Some [''hello''])) = [''hello''] \<and>
   history_entries (history_insert_item True (Some ''abc'') (Some [''hello''])) = [''hello''] \<and>
   history_entries (history_insert_item True
      (Some [CHR 0xC3, CHR 0xA4, CHR 0xC3, CHR 0xB6, CHR 0xC3, CHR 0xBC]) (Some [''hello'']))
     = [''hello''] \<and>
   (\<exists>rest. history_entries (history_insert_item True (Some ''abcd'') (Some [''hello'']))
      = ''abcd'' # rest)"
  using history_insert_item_threshold [of "''ab''" True "Some [''hello'']"]
    history_insert_item_threshold [of "''abc''" True "Some [''hello'']"]
    history_insert_item_threshold
      [of "[CHR 0xC3, CHR 0xA4, CHR 0xC3, CHR 0xB6, CHR 0xC3, CHR 0xBC]" True "Some [''hello'']"]
    history_insert_item_threshold [of "''abcd''" True "Some [''hello'']"]
  by (simp add: utf8_skip_def history_entries_def)

text \<open>
  C3. Inserting an eligible string that the store already holds, at whatever row,
  removes that row and puts the string in front. No insertion creates a duplicate, so a
  store filled by insertions never holds one. Inserting \<open>hello\<close>, \<open>world\<close>, \<open>hello\<close>
  leaves \<open>hello\<close>, \<open>world\<close>.
\<close>

theorem history_insert_item_moves_to_front:
  "(enabled \<and> 3 < g_utf8_strlen t \<and> t \<notin> set before \<longrightarrow>
      history_insert_item enabled (Some t) (Some (before @ t # after))
        = Some (t # before @ after)) \<and>
   (distinct (history_entries hs) \<longrightarrow>
      distinct (history_entries (history_insert_item enabled' t' hs))) \<and>
   distinct (history_entries (history_insert_all enabled'' ts None)) \<and>
   history_insert_all True [''hello'', ''world'', ''hello''] None = Some [''hello'', ''world'']"
proof -
  have "history_insert_item enabled (Some t) (Some (before @ t # after))
          = Some (t # before @ after)"
    if "enabled" "3 < g_utf8_strlen t" "t \<notin> set before"
    using that by (simp add: history_insert_item_Some history_entries_def remove1_append)
  moreover have "distinct (history_entries (history_insert_all enabled'' ts None))"
    by (rule history_insert_all_distinct) (simp add: history_entries_def)
  moreover have "history_insert_all True [''hello'', ''world'', ''hello''] None
                   = Some [''hello'', ''world'']"
    by code_simp
  ultimately show ?thesis
    by (simp add: history_insert_item_distinct)
qed

theorem history_insert_item_moves_to_front_witness:
  "history_insert_item True (Some ''hello'') (Some [''world'', ''hello'', ''again''])
     = Some [''hello'', ''world'', ''again''] \<and>
   distinct (history_entries (history_insert_item True (Some ''hello'')
     (Some [''world'', ''hello'', ''again''])))"
  using history_insert_item_moves_to_front
    [of True "''hello''" "[''world'']" "[''again'']" "Some [''world'', ''hello'', ''again'']"
      True "Some ''hello''"]
  by (simp add: utf8_skip_def history_entries_def)

text \<open>
  C4, as the code has it. \<^verbatim>\<open>history_insert_item\<close> calls
  \<^verbatim>\<open>history_clamp (HISTORY_LENGTH - 1)\<close>, and \<^verbatim>\<open>history_clamp (max)\<close> removes the rows
  from index \<open>max - 1\<close> on: a store of 9 rows or more is cut to 8 before the new row goes
  in front. A store filled by insertions never holds more than 9 rows, and 11 distinct
  eligible strings leave 9 rows, the two oldest gone.
\<close>

theorem history_eleven_inserts_leave_nine:
  "history_clamp (HISTORY_LENGTH - 1) store = take 8 store \<and>
   length (history_entries (history_insert_all enabled ts None)) \<le> 9 \<and>
   history_entries (history_insert_all True
      [''item01'', ''item02'', ''item03'', ''item04'', ''item05'', ''item06'',
       ''item07'', ''item08'', ''item09'', ''item10'', ''item11''] None)
     = [''item11'', ''item10'', ''item09'', ''item08'', ''item07'', ''item06'',
        ''item05'', ''item04'', ''item03'']"
proof -
  have "length (history_entries (history_insert_all enabled ts None)) \<le> 9"
    by (rule history_insert_all_length) (simp add: history_entries_def)
  moreover have "history_entries (history_insert_all True
      [''item01'', ''item02'', ''item03'', ''item04'', ''item05'', ''item06'',
       ''item07'', ''item08'', ''item09'', ''item10'', ''item11''] None)
     = [''item11'', ''item10'', ''item09'', ''item08'', ''item07'', ''item06'',
        ''item05'', ''item04'', ''item03'']"
    by code_simp
  ultimately show ?thesis
    by (simp add: history_clamp_take HISTORY_LENGTH_def)
qed

section \<open>Properties of the popover\<close>

subsection \<open>The pattern compiler, case by case\<close>

lemma update_regex_unchanged: "regex_unchanged w \<Longrightarrow> update_regex eng w = w"
  by (simp add: update_regex_def split: prod.splits)

lemma update_regex_empty:
  "\<not> regex_unchanged w \<Longrightarrow> search_entry w = [] \<Longrightarrow>
   update_regex eng w =
     w\<lparr>search_prev_button := False, search_next_button := False,
       regex_pattern := None, regex := None,
       trace := trace w @ (case regex w of Some r \<Rightarrow> [Regex_unref r] | None \<Rightarrow> [])
                @ [Notify_regex None]\<rparr>"
  by (simp add: update_regex_def update_sensitivity_def Let_def split: prod.splits option.splits)

lemma update_regex_failure:
  "\<not> regex_unchanged w \<Longrightarrow> search_entry w \<noteq> [] \<Longrightarrow>
   search_pattern w = (pattern, caseless, multiline) \<Longrightarrow>
   eng pattern caseless multiline = Some err \<Longrightarrow>
   update_regex eng w =
     w\<lparr>search_prev_button := False, search_next_button := False,
       regex_pattern := None, regex := None,
       trace := trace w @ (case regex w of Some r \<Rightarrow> [Regex_unref r] | None \<Rightarrow> [])
                @ [Regex_new pattern caseless multiline, Notify_regex None]\<rparr>"
  by (simp add: update_regex_def update_sensitivity_def regex_new_def Let_def split: prod.splits option.splits)

lemma update_regex_success:
  "\<not> regex_unchanged w \<Longrightarrow> search_entry w \<noteq> [] \<Longrightarrow>
   search_pattern w = (pattern, caseless, multiline) \<Longrightarrow>
   eng pattern caseless multiline = None \<Longrightarrow>
   update_regex eng w =
     w\<lparr>search_prev_button := True, search_next_button := True,
       regex_pattern := Some pattern,
       regex := Some \<lparr>rx_pattern = pattern, rx_caseless = caseless, rx_multiline = multiline\<rparr>,
       trace := trace w @ (case regex w of Some r \<Rightarrow> [Regex_unref r] | None \<Rightarrow> [])
                @ [Regex_new pattern caseless multiline,
                   Notify_regex (Some \<lparr>rx_pattern = pattern, rx_caseless = caseless, rx_multiline = multiline\<rparr>)]\<rparr>"
  by (simp add: update_regex_def update_sensitivity_def regex_new_def Let_def split: prod.splits option.splits)

subsection \<open>Notifications, the dispatcher and the dirty flag\<close>

lemma regex_pattern_NULL_changed: "regex_pattern w = None \<Longrightarrow> \<not> regex_unchanged w"
  by (simp add: regex_unchanged_def split: prod.splits)

lemma update_regex_trace:
  "\<not> regex_unchanged w \<Longrightarrow>
   \<exists>evs. trace (update_regex eng w) = trace w @ evs @ [Notify_regex (regex (update_regex eng w))] \<and>
         filter is_notify evs = []"
proof -
  assume ch: "\<not> regex_unchanged w"
  obtain p c m where sp: "search_pattern w = (p, c, m)" by (cases "search_pattern w")
  show ?thesis
  proof (cases "search_entry w = []")
    case True
    with ch show ?thesis
      by (simp add: update_regex_empty split: option.splits)
  next
    case False
    show ?thesis
    proof (cases "eng p c m")
      case None
      with ch False sp show ?thesis
        by (simp add: update_regex_success split: option.splits)
    next
      case (Some err)
      with ch False sp show ?thesis
        by (simp add: update_regex_failure split: option.splits)
    qed
  qed
qed

lemma update_regex_notifications:
  "\<not> regex_unchanged w \<Longrightarrow> notifications (update_regex eng w) = Suc (notifications w)"
  using update_regex_trace [of w eng] by (auto simp add: notifications_def)

lemma update_regex_last:
  "\<not> regex_unchanged w \<Longrightarrow>
   last (trace (update_regex eng w)) = Notify_regex (regex (update_regex eng w))"
  using update_regex_trace [of w eng] by auto

lemma update_regex_stays_None:
  "regex_pattern w = None \<Longrightarrow>
   search_entry w = [] \<or> (case search_pattern w of (p, c, m) \<Rightarrow> eng p c m \<noteq> None) \<Longrightarrow>
   regex (update_regex eng w) = None \<and> regex_pattern (update_regex eng w) = None"
proof -
  assume n: "regex_pattern w = None"
    and f: "search_entry w = [] \<or> (case search_pattern w of (p, c, m) \<Rightarrow> eng p c m \<noteq> None)"
  from n have ch: "\<not> regex_unchanged w" by (rule regex_pattern_NULL_changed)
  obtain p c m where sp: "search_pattern w = (p, c, m)" by (cases "search_pattern w")
  show ?thesis
  proof (cases "search_entry w = []")
    case True
    with ch show ?thesis by (simp add: update_regex_empty)
  next
    case False
    with f sp obtain err where "eng p c m = Some err" by auto
    with ch False sp show ?thesis by (simp add: update_regex_failure)
  qed
qed

lemma perform_search_no_regex: "regex w = None \<Longrightarrow> perform_search backward w = w"
  by (simp add: perform_search_def)

lemma perform_search_dirty:
  "regex w \<noteq> None \<Longrightarrow> search_text_changed w \<Longrightarrow>
   perform_search backward w =
     w\<lparr>search_text_changed := False,
       history_store := history_insert_item (gtk_recent_files_enabled w) (Some (search_entry w)) (history_store w),
       trace := trace w @ [Search_signal backward
          (history_insert_item (gtk_recent_files_enabled w) (Some (search_entry w)) (history_store w))]\<rparr>"
  by (auto simp add: perform_search_def)

lemma perform_search_clean:
  "regex w \<noteq> None \<Longrightarrow> \<not> search_text_changed w \<Longrightarrow>
   perform_search backward w = w\<lparr>trace := trace w @ [Search_signal backward (history_store w)]\<rparr>"
  by (auto simp add: perform_search_def)

lemma search_text_changed_cb_sets:
  "search_text_changed (search_text_changed_cb eng w)"
  by (simp add: search_text_changed_cb_def)

lemma update_regex_keeps:
  "search_entry (update_regex eng w) = search_entry w"
  "search_text_changed (update_regex eng w) = search_text_changed w"
  "history_store (update_regex eng w) = history_store w"
  "gtk_recent_files_enabled (update_regex eng w) = gtk_recent_files_enabled w"
  "regex_caseless (update_regex eng w) = regex_caseless w"
  "regex_multiline (update_regex eng w) = regex_multiline w"
  "match_case_checkbutton (update_regex eng w) = match_case_checkbutton w"
  "entire_word_checkbutton (update_regex eng w) = entire_word_checkbutton w"
  "regex_checkbutton (update_regex eng w) = regex_checkbutton w"
  by (simp_all add: update_regex_def update_sensitivity_def regex_new_def Let_def
      split: prod.splits option.splits sum.splits)

lemma perform_search_clears:
  "regex w \<noteq> None \<Longrightarrow> \<not> search_text_changed (perform_search backward w)"
  by (auto simp add: perform_search_def)

lemma perform_search_keeps_clean:
  "\<not> search_text_changed w \<Longrightarrow>
   \<not> search_text_changed (perform_search backward w) \<and>
   history_store (perform_search backward w) = history_store w"
  by (simp add: perform_search_def)

lemma dispatch_keeps_clean:
  "\<not> search_text_changed w \<Longrightarrow> e \<noteq> Search_changed \<Longrightarrow>
   \<not> search_text_changed (dispatch eng e w) \<and>
   history_store (dispatch eng e w) = history_store w"
proof (cases e)
  case (Toggled b)
  assume "\<not> search_text_changed w"
  with Toggled show ?thesis
    by (cases b) (simp_all add: search_parameters_changed_cb_def update_regex_keeps)
qed (simp_all add: perform_search_keeps_clean wrap_around_toggled_cb_def
      search_button_clicked_cb_def previous_match_cb_def next_match_cb_def)

lemma run_keeps_clean:
  "\<not> search_text_changed w \<Longrightarrow> Search_changed \<notin> set es \<Longrightarrow>
   \<not> search_text_changed (run eng es w) \<and> history_store (run eng es w) = history_store w"
proof (induction es arbitrary: w)
  case Nil
  then show ?case by simp
next
  case (Cons e es)
  from Cons.prems have "\<not> search_text_changed (dispatch eng e w)"
    and "history_store (dispatch eng e w) = history_store w"
    using dispatch_keeps_clean [of w e eng] by auto
  with Cons.IH [of "dispatch eng e w"] Cons.prems show ?case by simp
qed

subsection \<open>Escaping and the derived pattern\<close>

lemma bslash_special: "regex_special bslash"
  by (simp add: regex_special_def)

lemma spec_literal_Cons:
  "\<not> regex_special c \<Longrightarrow> spec_literal (c # cs) = map_option ((#) c) (spec_literal cs)"
  by (cases cs) (auto simp add: bslash_special)

lemma spec_literal_escape: "spec_literal (g_regex_escape_string s) = Some s"
  by (induction s) (simp_all add: spec_literal_Cons)

lemma escape_plain: "\<forall>c \<in> set s. \<not> regex_special c \<Longrightarrow> g_regex_escape_string s = s"
  by (induction s) simp_all

lemma escape_Nil_iff: "g_regex_escape_string s = [] \<longleftrightarrow> s = []"
  by (cases s) simp_all

lemma escape_not_bb: "g_regex_escape_string s \<noteq> [bslash, CHR ''b'', bslash, CHR ''b'']"
proof (cases s)
  case Nil
  then show ?thesis by simp
next
  case (Cons c cs)
  have "\<not> regex_special CHR ''b''" by (simp add: regex_special_def bslash_def)
  with Cons show ?thesis by (auto simp add: bslash_special)
qed

lemma search_pattern_eq:
  "search_pattern w =
     (let base = (if regex_checkbutton w then search_entry w
                  else g_regex_escape_string (search_entry w))
      in ((if entire_word_checkbutton w then [bslash, CHR ''b''] @ base @ [bslash, CHR ''b''] else base),
          \<not> match_case_checkbutton w, regex_checkbutton w))"
  by (simp add: search_pattern_def Let_def)

lemma pattern_empty_differs:
  "t \<noteq> [] \<Longrightarrow> search_entry w = [] \<Longrightarrow>
   fst (search_pattern (w\<lparr>search_entry := t\<rparr>)) \<noteq> fst (search_pattern w)"
  by (simp add: search_pattern_eq Let_def escape_Nil_iff)

lemma pattern_empty_differs_flip:
  "t \<noteq> [] \<Longrightarrow> search_entry w = [] \<Longrightarrow> \<not> regex_checkbutton w \<Longrightarrow>
   fst (search_pattern (flip b (w\<lparr>search_entry := t\<rparr>))) \<noteq> fst (search_pattern w)"
  using escape_not_bb [of t]
  by (cases b) (auto simp add: search_pattern_eq Let_def escape_Nil_iff)

lemma unchanged_no_regex_mode:
  "\<not> regex_multiline w \<Longrightarrow> regex_unchanged w \<Longrightarrow> \<not> regex_checkbutton w"
  by (auto simp add: regex_unchanged_def search_pattern_eq Let_def)

lemma unchanged_pattern:
  "regex_unchanged w \<Longrightarrow> regex_pattern w = Some (fst (search_pattern w))"
  by (auto simp add: regex_unchanged_def split: prod.splits)

subsection \<open>The cache invariant holds in every state a run reaches\<close>

lemma search_pattern_cong:
  "search_entry w' = search_entry w \<Longrightarrow> match_case_checkbutton w' = match_case_checkbutton w \<Longrightarrow>
   entire_word_checkbutton w' = entire_word_checkbutton w \<Longrightarrow>
   regex_checkbutton w' = regex_checkbutton w \<Longrightarrow> search_pattern w' = search_pattern w"
  by (simp add: search_pattern_eq)

lemma cache_inv_cong:
  assumes "cache_inv w"
    and "match_case_checkbutton w' = match_case_checkbutton w"
    and "entire_word_checkbutton w' = entire_word_checkbutton w"
    and "regex_checkbutton w' = regex_checkbutton w"
    and "regex_caseless w' = regex_caseless w"
    and "regex_multiline w' = regex_multiline w"
    and "regex_pattern w' = regex_pattern w"
    and "regex w' = regex w"
  shows "cache_inv w'"
proof -
  have "search_pattern (w'\<lparr>search_entry := t\<rparr>) = search_pattern (w\<lparr>search_entry := t\<rparr>)" for t
    using assms by (simp add: search_pattern_eq)
  with assms show ?thesis by (simp add: cache_inv_def)
qed

lemma update_regex_establishes_inv:
  assumes flags: "\<not> regex_caseless w" "\<not> regex_multiline w"
    and iff: "regex w = None \<longleftrightarrow> regex_pattern w = None"
    and ne: "search_entry w = [] \<Longrightarrow> \<not> regex_unchanged w"
  shows "cache_inv (update_regex eng w)"
proof (cases "regex_unchanged w")
  case True
  then have p: "regex_pattern w = Some (fst (search_pattern w))" by (rule unchanged_pattern)
  from True ne have "search_entry w \<noteq> []" by auto
  moreover have "w\<lparr>search_entry := search_entry w\<rparr> = w" by simp
  ultimately have "\<exists>t. t \<noteq> [] \<and> fst (search_pattern w) = fst (search_pattern (w\<lparr>search_entry := t\<rparr>))"
    by metis
  with p flags iff have "cache_inv w" by (simp add: cache_inv_def)
  with True show ?thesis by (simp add: update_regex_unchanged)
next
  case False
  obtain p c m where sp: "search_pattern w = (p, c, m)" by (cases "search_pattern w")
  show ?thesis
  proof (cases "search_entry w = []")
    case True
    with False flags show ?thesis by (simp add: update_regex_empty cache_inv_def)
  next
    case ne: False
    show ?thesis
    proof (cases "eng p c m")
      case (Some err)
      with False ne sp flags show ?thesis by (simp add: update_regex_failure cache_inv_def)
    next
      case None
      let ?w' = "update_regex eng w"
      have eq: "search_pattern (?w'\<lparr>search_entry := t\<rparr>) = search_pattern (w\<lparr>search_entry := t\<rparr>)" for t
        by (rule search_pattern_cong) (simp_all add: update_regex_keeps)
      have "p = fst (search_pattern (w\<lparr>search_entry := search_entry w\<rparr>))" using sp by simp
      with ne have "\<exists>t. t \<noteq> [] \<and> p = fst (search_pattern (w\<lparr>search_entry := t\<rparr>))" by blast
      moreover have "regex_pattern ?w' = Some p" "regex ?w' \<noteq> None"
        using False ne sp None by (simp_all add: update_regex_success)
      ultimately show ?thesis
        using flags by (auto simp add: cache_inv_def eq update_regex_keeps)
    qed
  qed
qed

lemma cache_inv_changed_on_empty:
  assumes "cache_inv w" "search_entry w = []"
  shows "\<not> regex_unchanged w"
proof
  assume u: "regex_unchanged w"
  then have "regex_pattern w = Some (fst (search_pattern w))" by (rule unchanged_pattern)
  with assms(1) obtain t where "t \<noteq> []"
    and "fst (search_pattern w) = fst (search_pattern (w\<lparr>search_entry := t\<rparr>))"
    by (auto simp add: cache_inv_def)
  with pattern_empty_differs [of t w] assms(2) show False by simp
qed

lemma cache_pre_changed_on_empty:
  assumes "cache_pre b w" "search_entry w = []"
  shows "\<not> regex_unchanged w"
proof
  assume u: "regex_unchanged w"
  then have p: "regex_pattern w = Some (fst (search_pattern w))" by (rule unchanged_pattern)
  from assms(1) have "\<not> regex_multiline w" by (simp add: cache_pre_def)
  from this u have nr: "\<not> regex_checkbutton w" by (rule unchanged_no_regex_mode)
  from p assms(1) obtain t where "t \<noteq> []"
    and "fst (search_pattern w) = fst (search_pattern (flip b (w\<lparr>search_entry := t\<rparr>)))"
    by (auto simp add: cache_pre_def)
  with pattern_empty_differs_flip [of t w b] assms(2) nr show False by simp
qed

lemma flip_flip: "flip b (flip b w) = w"
  by (cases b) simp_all

lemma flip_entry: "flip b (w\<lparr>search_entry := t\<rparr>) = (flip b w)\<lparr>search_entry := t\<rparr>"
  by (cases b) simp_all

lemma flip_keeps:
  "search_entry (flip b w) = search_entry w"
  "regex (flip b w) = regex w"
  "regex_pattern (flip b w) = regex_pattern w"
  "regex_caseless (flip b w) = regex_caseless w"
  "regex_multiline (flip b w) = regex_multiline w"
  "trace (flip b w) = trace w"
  by (cases b; simp)+

lemma cache_pre_flip: "cache_inv w \<Longrightarrow> cache_pre b (flip b w)"
  by (simp add: cache_inv_def cache_pre_def flip_keeps flip_entry [symmetric] flip_flip)

lemma cache_inv_update_regex: "cache_inv w \<Longrightarrow> cache_inv (update_regex eng w)"
  using cache_inv_changed_on_empty [of w]
  by (intro update_regex_establishes_inv) (auto simp add: cache_inv_def)

lemma cache_inv_toggled: "cache_inv w \<Longrightarrow> cache_inv (update_regex eng (flip b w))"
proof -
  assume "cache_inv w"
  then have pre: "cache_pre b (flip b w)" by (rule cache_pre_flip)
  show ?thesis
    using pre cache_pre_changed_on_empty [OF pre]
    by (intro update_regex_establishes_inv) (auto simp add: cache_pre_def)
qed

lemma perform_search_keeps:
  "match_case_checkbutton (perform_search d w) = match_case_checkbutton w"
  "entire_word_checkbutton (perform_search d w) = entire_word_checkbutton w"
  "regex_checkbutton (perform_search d w) = regex_checkbutton w"
  "regex_caseless (perform_search d w) = regex_caseless w"
  "regex_multiline (perform_search d w) = regex_multiline w"
  "regex_pattern (perform_search d w) = regex_pattern w"
  "regex (perform_search d w) = regex w"
  by (simp_all add: perform_search_def Let_def)

lemma cache_inv_perform_search: "cache_inv w \<Longrightarrow> cache_inv (perform_search d w)"
  by (erule cache_inv_cong) (simp_all add: perform_search_keeps)

lemma cache_inv_dispatch: "cache_inv w \<Longrightarrow> cache_inv (dispatch eng e w)"
proof (cases e)
  case (Entry_edit t)
  assume "cache_inv w"
  with Entry_edit show ?thesis by (simp add: cache_inv_def)
next
  case Search_changed
  assume "cache_inv w"
  then have "cache_inv (update_regex eng w)" by (rule cache_inv_update_regex)
  then have "cache_inv ((update_regex eng w)\<lparr>search_text_changed := True\<rparr>)"
    by (rule cache_inv_cong) simp_all
  with Search_changed show ?thesis by (simp add: search_text_changed_cb_def)
next
  case (Toggled b)
  assume "cache_inv w"
  with Toggled show ?thesis by (simp add: search_parameters_changed_cb_def cache_inv_toggled)
next
  case Wrap_around_toggled
  assume "cache_inv w"
  then have "cache_inv (wrap_around_toggled_cb (w\<lparr>wrap_around_checkbutton := \<not> wrap_around_checkbutton w\<rparr>))"
    by (rule cache_inv_cong) (simp_all add: wrap_around_toggled_cb_def)
  with Wrap_around_toggled show ?thesis by simp
next
  case (Setting_changed x)
  assume "cache_inv w"
  then have "cache_inv (w\<lparr>gtk_recent_files_enabled := x\<rparr>)"
    by (rule cache_inv_cong) simp_all
  with Setting_changed show ?thesis by simp
qed (simp_all add: cache_inv_perform_search search_button_clicked_cb_def
      previous_match_cb_def next_match_cb_def)

lemma cache_inv_run: "cache_inv w \<Longrightarrow> cache_inv (run eng es w)"
  by (induction es arbitrary: w) (simp_all add: cache_inv_dispatch)

lemma cache_inv_init:
  "cache_inv (terminal_search_popover_init t mc ew rx wa en hs)"
  by (simp add: cache_inv_def terminal_search_popover_init_def update_sensitivity_def)

section \<open>The claims about the popover\<close>

lemma regex_unchanged_reachable:
  "cache_inv w \<Longrightarrow>
   regex_unchanged w \<longleftrightarrow>
     match_case_checkbutton w \<and> \<not> regex_checkbutton w \<and>
     regex_pattern w = Some (fst (search_pattern w))"
  by (auto simp add: cache_inv_def regex_unchanged_def search_pattern_eq Let_def)

text \<open>
  C1, as the code has it. \<^verbatim>\<open>update_regex\<close> compares the new flags with
  \<^verbatim>\<open>regex_caseless\<close> and \<^verbatim>\<open>regex_multiline\<close>, but nothing after
  \<^verbatim>\<open>terminal_search_popover_init\<close> assigns these two fields: in every state a run
  reaches both are \<open>False\<close>, whatever the held regex was compiled with, and the early
  return is taken exactly when "match case" is on, regex mode is off and the pattern is
  the cached one. Three runs with
  the text \<open>abc\<close> follow. With "match case" on, switching regex mode on and off again:
  the second toggle returns early, and the regex compiled with multiline stays although
  the new triple has multiline off. With "match case" off, switching it on: the handler
  returns early and the caseless regex stays. With "match case" off, a second
  \<^verbatim>\<open>search-changed\<close> on the same text: the triple is the one the held regex was compiled
  from, and the engine is called and the property notified a second time.
\<close>

theorem update_regex_cache_flags_never_stored:
  "\<not> regex_caseless (run eng es (terminal_search_popover_init t mc ew rx wa en hs)) \<and>
   \<not> regex_multiline (run eng es (terminal_search_popover_init t mc ew rx wa en hs)) \<and>
   regex_unchanged (run eng es (terminal_search_popover_init t mc ew rx wa en hs)) =
     (match_case_checkbutton (run eng es (terminal_search_popover_init t mc ew rx wa en hs)) \<and>
      \<not> regex_checkbutton (run eng es (terminal_search_popover_init t mc ew rx wa en hs)) \<and>
      regex_pattern (run eng es (terminal_search_popover_init t mc ew rx wa en hs)) =
        Some (fst (search_pattern (run eng es (terminal_search_popover_init t mc ew rx wa en hs))))) \<and>
   (let w3 = run example_engine [Entry_edit ''abc'', Search_changed, Toggled Regex]
               (terminal_search_popover_init [] True False False False True None);
        w4 = dispatch example_engine (Toggled Regex) w3
    in regex w3 = Some \<lparr>rx_pattern = ''abc'', rx_caseless = False, rx_multiline = True\<rparr> \<and>
       search_pattern w4 = (''abc'', False, False) \<and>
       regex w4 = Some \<lparr>rx_pattern = ''abc'', rx_caseless = False, rx_multiline = True\<rparr> \<and>
       trace w4 = trace w3) \<and>
   (let w2 = run example_engine [Entry_edit ''abc'', Search_changed]
               (terminal_search_popover_init [] False False False False True None);
        w3 = dispatch example_engine (Toggled Match_case) w2
    in regex w2 = Some \<lparr>rx_pattern = ''abc'', rx_caseless = True, rx_multiline = False\<rparr> \<and>
       search_pattern w3 = (''abc'', False, False) \<and>
       regex w3 = Some \<lparr>rx_pattern = ''abc'', rx_caseless = True, rx_multiline = False\<rparr> \<and>
       trace w3 = trace w2) \<and>
   (let w2 = run example_engine [Entry_edit ''abc'', Search_changed]
               (terminal_search_popover_init [] False False False False True None);
        w3 = dispatch example_engine Search_changed w2
    in regex w2 = Some \<lparr>rx_pattern = ''abc'', rx_caseless = True, rx_multiline = False\<rparr> \<and>
       search_pattern w2 = (''abc'', True, False) \<and>
       compilations w2 = 1 \<and> notifications w2 = 1 \<and>
       compilations w3 = 2 \<and> notifications w3 = 2)"
proof -
  let ?w = "run eng es (terminal_search_popover_init t mc ew rx wa en hs)"
  have inv: "cache_inv ?w"
    by (simp add: cache_inv_run cache_inv_init)
  then have flags: "\<not> regex_caseless ?w \<and> \<not> regex_multiline ?w"
    by (simp add: cache_inv_def)
  from inv have hit: "regex_unchanged ?w =
     (match_case_checkbutton ?w \<and> \<not> regex_checkbutton ?w \<and>
      regex_pattern ?w = Some (fst (search_pattern ?w)))"
    by (rule regex_unchanged_reachable)
  have a: "(let w3 = run example_engine [Entry_edit ''abc'', Search_changed, Toggled Regex]
               (terminal_search_popover_init [] True False False False True None);
        w4 = dispatch example_engine (Toggled Regex) w3
    in regex w3 = Some \<lparr>rx_pattern = ''abc'', rx_caseless = False, rx_multiline = True\<rparr> \<and>
       search_pattern w4 = (''abc'', False, False) \<and>
       regex w4 = Some \<lparr>rx_pattern = ''abc'', rx_caseless = False, rx_multiline = True\<rparr> \<and>
       trace w4 = trace w3)"
    by code_simp
  have b: "(let w2 = run example_engine [Entry_edit ''abc'', Search_changed]
               (terminal_search_popover_init [] False False False False True None);
        w3 = dispatch example_engine (Toggled Match_case) w2
    in regex w2 = Some \<lparr>rx_pattern = ''abc'', rx_caseless = True, rx_multiline = False\<rparr> \<and>
       search_pattern w3 = (''abc'', False, False) \<and>
       regex w3 = Some \<lparr>rx_pattern = ''abc'', rx_caseless = True, rx_multiline = False\<rparr> \<and>
       trace w3 = trace w2)"
    by code_simp
  have c: "(let w2 = run example_engine [Entry_edit ''abc'', Search_changed]
               (terminal_search_popover_init [] False False False False True None);
        w3 = dispatch example_engine Search_changed w2
    in regex w2 = Some \<lparr>rx_pattern = ''abc'', rx_caseless = True, rx_multiline = False\<rparr> \<and>
       search_pattern w2 = (''abc'', True, False) \<and>
       compilations w2 = 1 \<and> notifications w2 = 1 \<and>
       compilations w3 = 2 \<and> notifications w3 = 2)"
    by code_simp
  from flags hit a b c show ?thesis by blast
qed

text \<open>
  C2. The pattern and flags that \<^verbatim>\<open>update_regex\<close> derives: the text as it is in regex
  mode, the escaped text otherwise; wrapped in \<^verbatim>\<open>\b\<close> ... \<^verbatim>\<open>\b\<close> when "entire word" is
  on; caseless is the negation of "match case"; multiline is regex mode. The escaped text
  has every metacharacter behind a backslash and reads back as the text. Whenever
  \<^verbatim>\<open>update_regex\<close> compiles, this is what the engine is given. For the text \<open>cat\<close> with
  "entire word" on and regex mode off the pattern is \<^verbatim>\<open>\bcat\b\<close>.
\<close>

theorem search_pattern_derivation:
  "search_pattern w =
     (let base = (if regex_checkbutton w then search_entry w
                  else g_regex_escape_string (search_entry w))
      in ((if entire_word_checkbutton w then [bslash, CHR ''b''] @ base @ [bslash, CHR ''b'']
           else base),
          \<not> match_case_checkbutton w, regex_checkbutton w)) \<and>
   spec_literal (g_regex_escape_string s) = Some s \<and>
   (\<not> regex_unchanged w \<and> search_entry w \<noteq> [] \<longrightarrow>
      (case search_pattern w of
         (pattern, caseless, multiline) \<Rightarrow>
           Regex_new pattern caseless multiline \<in> set (trace (update_regex eng w)))) \<and>
   fst (search_pattern (terminal_search_popover_init ''cat'' match_case True False wrap_around enabled hs))
     = [bslash, CHR ''b'', CHR ''c'', CHR ''a'', CHR ''t'', bslash, CHR ''b'']"
proof -
  have "Regex_new pattern caseless multiline \<in> set (trace (update_regex eng w))"
    if "\<not> regex_unchanged w" "search_entry w \<noteq> []"
      "search_pattern w = (pattern, caseless, multiline)" for pattern caseless multiline
  proof (cases "eng pattern caseless multiline")
    case None
    with that show ?thesis by (simp add: update_regex_success)
  next
    case (Some err)
    with that show ?thesis by (simp add: update_regex_failure)
  qed
  moreover have "fst (search_pattern (terminal_search_popover_init ''cat'' match_case True False wrap_around enabled hs))
     = [bslash, CHR ''b'', CHR ''c'', CHR ''a'', CHR ''t'', bslash, CHR ''b'']"
    by (simp add: search_pattern_eq terminal_search_popover_init_def update_sensitivity_def
        regex_special_def bslash_def)
  ultimately show ?thesis
    by (auto simp add: search_pattern_eq spec_literal_escape)
qed

text \<open>The text \<^verbatim>\<open>a.b*\<close>, regex mode off: the pattern is \<^verbatim>\<open>a\.b\*\<close>.\<close>

theorem search_pattern_derivation_witness:
  "search_pattern (terminal_search_popover_init ''a.b*'' False False False False True None)
     = ([CHR ''a'', bslash, CHR ''.'', CHR ''b'', bslash, CHR ''*''], True, False) \<and>
   spec_literal [CHR ''a'', bslash, CHR ''.'', CHR ''b'', bslash, CHR ''*''] = Some ''a.b*'' \<and>
   Regex_new [CHR ''a'', bslash, CHR ''.'', CHR ''b'', bslash, CHR ''*''] True False
     \<in> set (trace (update_regex example_engine
          (terminal_search_popover_init ''a.b*'' False False False False True None)))"
proof -
  let ?w = "terminal_search_popover_init ''a.b*'' False False False False True None"
  have e: "g_regex_escape_string ''a.b*'' = [CHR ''a'', bslash, CHR ''.'', CHR ''b'', bslash, CHR ''*'']"
    by code_simp
  have h: "\<not> regex_unchanged ?w \<and> search_entry ?w \<noteq> []"
    by code_simp
  have sp: "search_pattern ?w = ([CHR ''a'', bslash, CHR ''.'', CHR ''b'', bslash, CHR ''*''], True, False)"
    by code_simp
  from search_pattern_derivation [of ?w "''a.b*''" example_engine] h sp e
  show ?thesis by simp
qed

text \<open>
  C5. In every state that a run of events reaches from
  \<^verbatim>\<open>terminal_search_popover_init\<close>, whatever the check buttons: when the entry is empty
  and a handler runs \<^verbatim>\<open>update_regex\<close> (on \<^verbatim>\<open>search-changed\<close>, or on the toggle of a
  check button), the popover holds no regex afterwards, and a regex held before has been
  released.
\<close>

theorem update_regex_empty_text:
  assumes "w = run eng es (terminal_search_popover_init t match_case entire_word use_regex wrap_around enabled hs)"
    and "search_entry w = []"
    and "e = Search_changed \<or> e = Toggled b"
  shows "regex (dispatch eng e w) = None \<and>
         terminal_search_popover_get_regex (dispatch eng e w) = None \<and>
         regex_pattern (dispatch eng e w) = None \<and>
         trace (dispatch eng e w) =
           trace w @ (case regex w of Some r \<Rightarrow> [Regex_unref r] | None \<Rightarrow> []) @ [Notify_regex None]"
proof -
  from assms(1) have inv: "cache_inv w"
    by (simp add: cache_inv_run cache_inv_init)
  from assms(3) show ?thesis
  proof
    assume e: "e = Search_changed"
    from inv assms(2) have "\<not> regex_unchanged w" by (rule cache_inv_changed_on_empty)
    with assms(2) e show ?thesis
      by (simp add: search_text_changed_cb_def update_regex_empty
          terminal_search_popover_get_regex_def)
  next
    assume e: "e = Toggled b"
    from inv have "cache_pre b (flip b w)" by (rule cache_pre_flip)
    moreover from assms(2) have "search_entry (flip b w) = []" by (simp add: flip_keeps)
    ultimately have "\<not> regex_unchanged (flip b w)" by (rule cache_pre_changed_on_empty)
    with assms(2) e show ?thesis
      by (simp add: search_parameters_changed_cb_def update_regex_empty flip_keeps
          terminal_search_popover_get_regex_def)
  qed
qed

theorem update_regex_empty_text_witness:
  "(let w = run example_engine [Entry_edit ''abc'', Search_changed, Entry_edit []]
              (terminal_search_popover_init [] False True False False True None);
        r = \<lparr>rx_pattern = [bslash, CHR ''b'', CHR ''a'', CHR ''b'', CHR ''c'', bslash, CHR ''b''],
                       rx_caseless = True, rx_multiline = False\<rparr>
    in search_entry w = [] \<and> regex w = Some r \<and>
       regex (dispatch example_engine Search_changed w) = None \<and>
       trace (dispatch example_engine Search_changed w) =
         trace w @ [Regex_unref r, Notify_regex None])"
proof -
  define w where "w = run example_engine [Entry_edit ''abc'', Search_changed, Entry_edit []]
              (terminal_search_popover_init [] False True False False True None)"
  define r where "r = \<lparr>rx_pattern = [bslash, CHR ''b'', CHR ''a'', CHR ''b'', CHR ''c'', bslash, CHR ''b''],
                       rx_caseless = True, rx_multiline = False\<rparr>"
  have h: "search_entry w = []" unfolding w_def by code_simp
  have r: "regex w = Some r" unfolding w_def r_def by code_simp
  from update_regex_empty_text [OF w_def h, of Search_changed] r h
  have "search_entry w = [] \<and> regex w = Some r \<and>
       regex (dispatch example_engine Search_changed w) = None \<and>
       trace (dispatch example_engine Search_changed w) =
         trace w @ [Regex_unref r, Notify_regex None]"
    by simp
  then show ?thesis
    unfolding Let_def w_def r_def .
qed

text \<open>
  C6. \<^verbatim>\<open>perform_search\<close> does nothing when the popover holds no regex. When it holds
  one and \<^verbatim>\<open>search_text_changed\<close> is set, the entry's text is handed to
  \<^verbatim>\<open>history_insert_item\<close> and the flag is cleared, and the signal \<^verbatim>\<open>search\<close> is emitted
  after that: its handlers find the history with the text committed. When the flag is not
  set the signal alone is emitted. \<^verbatim>\<open>search_text_changed_cb\<close> sets the flag on every
  \<^verbatim>\<open>search-changed\<close>.
\<close>

theorem perform_search_commits_before_signal:
  "(regex w = None \<longrightarrow> perform_search backward w = w) \<and>
   (regex w \<noteq> None \<and> search_text_changed w \<longrightarrow>
      perform_search backward w =
        w\<lparr>search_text_changed := False,
          history_store :=
            history_insert_item (gtk_recent_files_enabled w) (Some (search_entry w)) (history_store w),
          trace := trace w @
            [Search_signal backward
               (history_insert_item (gtk_recent_files_enabled w) (Some (search_entry w))
                  (history_store w))]\<rparr>) \<and>
   (regex w \<noteq> None \<and> \<not> search_text_changed w \<longrightarrow>
      perform_search backward w =
        w\<lparr>trace := trace w @ [Search_signal backward (history_store w)]\<rparr>) \<and>
   search_text_changed (search_text_changed_cb eng w)"
  by (simp add: perform_search_no_regex perform_search_dirty perform_search_clean
      search_text_changed_cb_sets)

theorem perform_search_commits_before_signal_witness:
  "(let w = run example_engine [Entry_edit ''abcd'', Search_changed]
              (terminal_search_popover_init [] False False False False True (Some [''hello'']))
    in regex w \<noteq> None \<and> search_text_changed w \<and>
       perform_search False w =
         w\<lparr>search_text_changed := False,
           history_store := Some [''abcd'', ''hello''],
           trace := trace w @ [Search_signal False (Some [''abcd'', ''hello''])]\<rparr>)"
proof -
  define w where "w = run example_engine [Entry_edit ''abcd'', Search_changed]
              (terminal_search_popover_init [] False False False False True (Some [''hello'']))"
  have h: "regex w \<noteq> None \<and> search_text_changed w" unfolding w_def by code_simp
  have i: "history_insert_item (gtk_recent_files_enabled w) (Some (search_entry w)) (history_store w)
             = Some [''abcd'', ''hello'']"
    unfolding w_def by code_simp
  from perform_search_commits_before_signal [of w False example_engine] h
  have "perform_search False w =
        w\<lparr>search_text_changed := False,
          history_store :=
            history_insert_item (gtk_recent_files_enabled w) (Some (search_entry w)) (history_store w),
          trace := trace w @
            [Search_signal False
               (history_insert_item (gtk_recent_files_enabled w) (Some (search_entry w))
                  (history_store w))]\<rparr>"
    by blast
  then have "perform_search False w =
         w\<lparr>search_text_changed := False,
           history_store := Some [''abcd'', ''hello''],
           trace := trace w @ [Search_signal False (Some [''abcd'', ''hello''])]\<rparr>"
    by (simp only: i)
  with h have "regex w \<noteq> None \<and> search_text_changed w \<and>
       perform_search False w =
         w\<lparr>search_text_changed := False,
           history_store := Some [''abcd'', ''hello''],
           trace := trace w @ [Search_signal False (Some [''abcd'', ''hello''])]\<rparr>"
    by blast
  then show ?thesis unfolding Let_def w_def .
qed

text \<open>
  C8. When \<^verbatim>\<open>update_regex\<close> goes on to compile a non-empty text and the engine fails,
  the regex held before was released before the engine was called, the popover holds no
  regex and no cached pattern, both search buttons are insensitive, and the property is
  notified. The resulting state does not depend on the error: it is dropped.
\<close>

theorem update_regex_compile_failure:
  assumes "\<not> regex_unchanged w"
    and "search_entry w \<noteq> []"
    and "search_pattern w = (pattern, caseless, multiline)"
    and "eng pattern caseless multiline = Some err"
  shows "update_regex eng w =
           w\<lparr>search_prev_button := False, search_next_button := False,
             regex_pattern := None, regex := None,
             trace := trace w @ (case regex w of Some r \<Rightarrow> [Regex_unref r] | None \<Rightarrow> [])
                      @ [Regex_new pattern caseless multiline, Notify_regex None]\<rparr>"
  using assms by (rule update_regex_failure)

theorem update_regex_compile_failure_witness:
  "(let w = run example_engine [Entry_edit ''abc'', Search_changed, Toggled Regex, Entry_edit ''(abc'']
              (terminal_search_popover_init [] False False False False True None);
        r = \<lparr>rx_pattern = ''abc'', rx_caseless = True, rx_multiline = True\<rparr>
    in regex w = Some r \<and> search_prev_button w \<and> search_next_button w \<and>
       example_engine ''(abc'' True True = Some ''missing closing parenthesis'' \<and>
       update_regex example_engine w =
         w\<lparr>search_prev_button := False, search_next_button := False,
           regex_pattern := None, regex := None,
           trace := trace w @ [Regex_unref r, Regex_new ''(abc'' True True, Notify_regex None]\<rparr>)"
proof -
  define w where "w = run example_engine
      [Entry_edit ''abc'', Search_changed, Toggled Regex, Entry_edit ''(abc'']
      (terminal_search_popover_init [] False False False False True None)"
  define r where "r = \<lparr>rx_pattern = ''abc'', rx_caseless = True, rx_multiline = True\<rparr>"
  have h1: "\<not> regex_unchanged w" unfolding w_def by code_simp
  have h2: "search_entry w \<noteq> []" unfolding w_def by code_simp
  have h3: "search_pattern w = (''(abc'', True, True)" unfolding w_def by code_simp
  have h4: "example_engine ''(abc'' True True = Some ''missing closing parenthesis''" by code_simp
  have r: "regex w = Some r" unfolding w_def r_def by code_simp
  have b: "search_prev_button w \<and> search_next_button w" unfolding w_def by code_simp
  from r have "(case regex w of None \<Rightarrow> [] | Some r \<Rightarrow> [Regex_unref r]) = [Regex_unref r]"
    by simp
  with update_regex_compile_failure [where eng = example_engine, OF h1 h2 h3 h4]
  have "update_regex example_engine w =
         w\<lparr>search_prev_button := False, search_next_button := False,
           regex_pattern := None, regex := None,
           trace := trace w @ [Regex_unref r, Regex_new ''(abc'' True True, Notify_regex None]\<rparr>"
    by (simp only: append_Cons append_Nil)
  with r b h4
  have "regex w = Some r \<and> search_prev_button w \<and> search_next_button w \<and>
       example_engine ''(abc'' True True = Some ''missing closing parenthesis'' \<and>
       update_regex example_engine w =
         w\<lparr>search_prev_button := False, search_next_button := False,
           regex_pattern := None, regex := None,
           trace := trace w @ [Regex_unref r, Regex_new ''(abc'' True True, Notify_regex None]\<rparr>"
    by blast
  then show ?thesis
    unfolding Let_def w_def r_def .
qed

text \<open>
  C9. Whenever \<^verbatim>\<open>update_regex\<close> does not return early, it notifies the property
  \<^verbatim>\<open>regex\<close> once, as its last action, whether or not the regex changed. In particular,
  from a state with no cached pattern (after a failed compilation, or after a call on an
  empty text), a call that fails to compile or finds the text empty leaves the popover
  without a regex and without a cached pattern, and notifies again.
\<close>

theorem update_regex_notifies_whenever_changed:
  "(\<not> regex_unchanged w \<longrightarrow>
      notifications (update_regex eng w) = Suc (notifications w) \<and>
      last (trace (update_regex eng w)) = Notify_regex (regex (update_regex eng w))) \<and>
   (regex_pattern w = None \<and>
    (search_entry w = [] \<or> (case search_pattern w of (p, c, m) \<Rightarrow> eng p c m \<noteq> None)) \<longrightarrow>
      regex (update_regex eng w) = None \<and> regex_pattern (update_regex eng w) = None \<and>
      notifications (update_regex eng w) = Suc (notifications w))"
  using update_regex_stays_None [of w eng]
  by (auto simp add: update_regex_notifications update_regex_last regex_pattern_NULL_changed
      simp del: split_paired_All split_paired_Ex)

text \<open>
  Two failed compilations of different patterns, then two toggles of "entire word" on an
  empty text: four notifications, and no regex at any point.
\<close>

theorem update_regex_notifies_whenever_changed_witness:
  "(let w1 = run example_engine [Entry_edit ''(a''] 
               (terminal_search_popover_init [] True False True False True None);
        w2 = update_regex example_engine w1;
        w3 = update_regex example_engine (w2\<lparr>search_entry := ''(b''\<rparr>);
        w4 = update_regex example_engine (flip Entire_word (w3\<lparr>search_entry := []\<rparr>));
        w5 = update_regex example_engine (flip Entire_word w4)
    in regex w1 = None \<and> regex w2 = None \<and> regex w3 = None \<and> regex w4 = None \<and> regex w5 = None \<and>
       notifications w1 = 0 \<and> notifications w2 = 1 \<and> notifications w3 = 2 \<and>
       notifications w4 = 3 \<and> notifications w5 = 4)"
proof -
  define w1 where "w1 = run example_engine [Entry_edit ''(a'']
               (terminal_search_popover_init [] True False True False True None)"
  define w2 where "w2 = update_regex example_engine w1"
  define w3 where "w3 = update_regex example_engine (w2\<lparr>search_entry := ''(b''\<rparr>)"
  define w4 where "w4 = update_regex example_engine (flip Entire_word (w3\<lparr>search_entry := []\<rparr>))"
  define w5 where "w5 = update_regex example_engine (flip Entire_word w4)"
  have a1: "regex w1 = None \<and> regex_pattern w1 = None \<and> notifications w1 = 0"
    unfolding w1_def by code_simp
  have f1: "case search_pattern w1 of (p, c, m) \<Rightarrow> example_engine p c m \<noteq> None"
    unfolding w1_def by code_simp
  from update_regex_notifies_whenever_changed [of w1 example_engine] a1 f1
  have a2: "regex w2 = None \<and> regex_pattern w2 = None \<and> notifications w2 = 1"
    unfolding w2_def by simp
  have s2: "search_pattern (w2\<lparr>search_entry := ''(b''\<rparr>) = (''(b'', False, True)"
    unfolding w2_def w1_def by code_simp
  have f2: "example_engine ''(b'' False True \<noteq> None" by code_simp
  from update_regex_notifies_whenever_changed [of "w2\<lparr>search_entry := ''(b''\<rparr>" example_engine]
    a2 s2 f2
  have a3: "regex w3 = None \<and> regex_pattern w3 = None \<and> notifications w3 = 2"
    unfolding w3_def by (simp add: notifications_def)
  from update_regex_notifies_whenever_changed
    [of "flip Entire_word (w3\<lparr>search_entry := []\<rparr>)" example_engine] a3
  have a4: "regex w4 = None \<and> regex_pattern w4 = None \<and> notifications w4 = 3"
    unfolding w4_def by (simp add: notifications_def)
  have e4: "search_entry (flip Entire_word w4) = []"
    unfolding w4_def by (simp add: update_regex_keeps)
  from update_regex_notifies_whenever_changed [of "flip Entire_word w4" example_engine] a4 e4
  have a5: "regex w5 = None \<and> notifications w5 = 4"
    unfolding w5_def by (simp add: notifications_def)
  from a1 a2 a3 a4 a5
  have "regex w1 = None \<and> regex w2 = None \<and> regex w3 = None \<and> regex w4 = None \<and> regex w5 = None \<and>
       notifications w1 = 0 \<and> notifications w2 = 1 \<and> notifications w3 = 2 \<and>
       notifications w4 = 3 \<and> notifications w5 = 4"
    by blast
  then show ?thesis
    unfolding Let_def w5_def w4_def w3_def w2_def w1_def .
qed

text \<open>
  C10. A search dispatched while a regex is held clears \<^verbatim>\<open>search_text_changed\<close>, also
  when \<^verbatim>\<open>history_insert_item\<close> did nothing because the history is disabled or the text
  has at most 3 code points: the rows of the store are then as before. From then on, as
  long as no \<^verbatim>\<open>search-changed\<close> arrives, no event changes the store, whatever is
  searched, toggled or edited, and even if the history is enabled meanwhile.
\<close>

theorem perform_search_clears_dirty_flag:
  "(regex w \<noteq> None \<longrightarrow> \<not> search_text_changed (perform_search backward w)) \<and>
   (regex w \<noteq> None \<and> search_text_changed w \<and>
    (\<not> gtk_recent_files_enabled w \<or> g_utf8_strlen (search_entry w) \<le> 3) \<longrightarrow>
      history_entries (history_store (perform_search backward w)) = history_entries (history_store w)) \<and>
   (regex w \<noteq> None \<and> Search_changed \<notin> set es \<longrightarrow>
      history_store (run eng es (perform_search backward w)) = history_store (perform_search backward w) \<and>
      \<not> search_text_changed (run eng es (perform_search backward w)))"
proof -
  have "history_entries (history_store (perform_search backward w)) = history_entries (history_store w)"
    if "regex w \<noteq> None" "search_text_changed w"
      "\<not> gtk_recent_files_enabled w \<or> g_utf8_strlen (search_entry w) \<le> 3"
    using that by (auto simp add: perform_search_dirty history_insert_item_entries)
  moreover have "history_store (run eng es (perform_search backward w)) = history_store (perform_search backward w) \<and>
      \<not> search_text_changed (run eng es (perform_search backward w))"
    if "regex w \<noteq> None" "Search_changed \<notin> set es"
    using that run_keeps_clean [of "perform_search backward w" es eng]
    by (simp add: perform_search_clears)
  ultimately show ?thesis
    using perform_search_clears [of w backward] by blast
qed

theorem perform_search_clears_dirty_flag_witness:
  "(let w = run example_engine [Entry_edit ''abc'', Search_changed]
              (terminal_search_popover_init [] False False False False True (Some [''hello'']));
        es = [Next_clicked, Entry_edit ''abcd'', Previous_match, Toggled Match_case, Next_match]
    in regex w \<noteq> None \<and> search_text_changed w \<and> g_utf8_strlen (search_entry w) = 3 \<and>
       \<not> search_text_changed (perform_search False w) \<and>
       history_entries (history_store (perform_search False w)) = [''hello''] \<and>
       history_store (run example_engine es (perform_search False w)) = Some [''hello''])"
proof -
  define w where "w = run example_engine [Entry_edit ''abc'', Search_changed]
              (terminal_search_popover_init [] False False False False True (Some [''hello'']))"
  define es where "es = [Next_clicked, Entry_edit ''abcd'', Previous_match, Toggled Match_case, Next_match]"
  have h: "regex w \<noteq> None \<and> search_text_changed w \<and> g_utf8_strlen (search_entry w) = 3"
    unfolding w_def by code_simp
  have e: "Search_changed \<notin> set es" unfolding es_def by simp
  have s: "history_store w = Some [''hello'']" unfolding w_def by code_simp
  from perform_search_clears_dirty_flag [of w False es example_engine] h e
  have c: "\<not> search_text_changed (perform_search False w) \<and>
     history_entries (history_store (perform_search False w)) = history_entries (history_store w) \<and>
     history_store (run example_engine es (perform_search False w)) = history_store (perform_search False w)"
    by simp
  from h s have "history_store (perform_search False w) = Some [''hello'']"
    by (auto simp add: perform_search_dirty history_insert_item_Some history_entries_def)
  with c s h have "regex w \<noteq> None \<and> search_text_changed w \<and> g_utf8_strlen (search_entry w) = 3 \<and>
       \<not> search_text_changed (perform_search False w) \<and>
       history_entries (history_store (perform_search False w)) = [''hello''] \<and>
       history_store (run example_engine es (perform_search False w)) = Some [''hello'']"
    by (simp add: history_entries_def)
  then show ?thesis unfolding Let_def w_def es_def .
qed

end
